theory Spec2Isabelle
  imports Complex_Main
begin

text \<open>
  A shallow embedding of the Touchstone reader of SNP-viewer (\<open>snp_viewer/touchstone.py\<close>
  and \<open>snp_viewer/analysis.py\<close>) and the proofs of its specified properties. The
  definitions come first, each named after the Python function it renders; the lemmas
  and the theorems on the specification's claims follow.
\<close>

section \<open>Python text primitives used by the decoder\<close>

text \<open>
  Text is modelled as HOL strings and read as ASCII: the classifications below follow
  what CPython does on ASCII characters. Characters outside ASCII are left alone by
  \<open>py_lower\<close> and \<open>py_upper\<close> and are never whitespace or digits here.
\<close>

definition is_space :: "char \<Rightarrow> bool" where
  \<comment> \<open>whitespace of \<open>str.strip()\<close> and \<open>str.split()\<close>: TAB, LF, VT, FF, CR, FS, GS, RS, US, SPACE\<close>
  "is_space c = (let n = (of_char c :: nat) in (9 \<le> n \<and> n \<le> 13) \<or> (28 \<le> n \<and> n \<le> 32))"

definition is_int_space :: "char \<Rightarrow> bool" where
  \<comment> \<open>whitespace skipped by \<open>int()\<close> on an ASCII string: TAB, LF, VT, FF, CR, SPACE\<close>
  "is_int_space c = (let n = (of_char c :: nat) in (9 \<le> n \<and> n \<le> 13) \<or> n = 32)"

definition is_digit :: "char \<Rightarrow> bool" where
  "is_digit c = (let n = (of_char c :: nat) in 48 \<le> n \<and> n \<le> 57)"

definition digit_val :: "char \<Rightarrow> nat" where
  "digit_val c = of_char c - 48"

definition lower_char :: "char \<Rightarrow> char" where
  "lower_char c = (let n = (of_char c :: nat) in if 65 \<le> n \<and> n \<le> 90 then char_of (n + 32) else c)"

definition upper_char :: "char \<Rightarrow> char" where
  "upper_char c = (let n = (of_char c :: nat) in if 97 \<le> n \<and> n \<le> 122 then char_of (n - 32) else c)"

definition py_lower :: "string \<Rightarrow> string" where
  "py_lower t = map lower_char t"

definition py_upper :: "string \<Rightarrow> string" where
  "py_upper t = map upper_char t"

definition py_strip :: "string \<Rightarrow> string" where
  "py_strip t = rev (dropWhile is_space (rev (dropWhile is_space t)))"

definition startswith :: "string \<Rightarrow> string \<Rightarrow> bool" where
  "startswith t p = (take (length p) t = p)"

definition endswith :: "string \<Rightarrow> string \<Rightarrow> bool" where
  "endswith t p = (length p \<le> length t \<and> drop (length t - length p) t = p)"

fun contains :: "string \<Rightarrow> string \<Rightarrow> bool" where
  \<comment> \<open>\<open>p in t\<close>\<close>
  "contains [] p = (p = [])"
| "contains (c # cs) p = (startswith (c # cs) p \<or> contains cs p)"

function split_from :: "string \<Rightarrow> string \<Rightarrow> string \<Rightarrow> string list" where
  \<comment> \<open>the scan of \<open>t.split(sep)\<close>: \<open>cur\<close> is the field being read, reversed\<close>
  "split_from sep cur [] = [rev cur]"
| "split_from sep cur (c # cs) =
     (if sep \<noteq> [] \<and> startswith (c # cs) sep
      then rev cur # split_from sep [] (drop (length sep) (c # cs))
      else split_from sep (c # cur) cs)"
  by pat_completeness auto
termination
  by (relation "measure (\<lambda>(sep, cur, t). length t)") auto

definition py_split :: "string \<Rightarrow> string \<Rightarrow> string list" where
  \<comment> \<open>\<open>t.split(sep)\<close> for a separator that is not empty (the source passes literals)\<close>
  "py_split sep t = split_from sep [] t"

fun split_ws_from :: "string \<Rightarrow> string \<Rightarrow> string list" where
  \<comment> \<open>the scan of \<open>t.split()\<close>: runs of whitespace separate, no empty field\<close>
  "split_ws_from cur [] = (if cur = [] then [] else [rev cur])"
| "split_ws_from cur (c # cs) =
     (if is_space c
      then (if cur = [] then split_ws_from [] cs else rev cur # split_ws_from [] cs)
      else split_ws_from (c # cur) cs)"

definition split_ws :: "string \<Rightarrow> string list" where
  "split_ws t = split_ws_from [] t"

definition replace_tab :: "string \<Rightarrow> string" where
  \<comment> \<open>\<open>t.replace("\t", " ")\<close>\<close>
  "replace_tab t = map (\<lambda>c. if c = char_of (9::nat) then CHR '' '' else c) t"

subsection \<open>The built-in \<open>int()\<close> on text\<close>

fun int_digits :: "nat \<Rightarrow> string \<Rightarrow> nat option" where
  \<comment> \<open>after a first digit: more digits, each optionally preceded by one underscore\<close>
  "int_digits acc [] = Some acc"
| "int_digits acc [c] = (if is_digit c then Some (10 * acc + digit_val c) else None)"
| "int_digits acc (c # d # ds) =
     (if is_digit c then int_digits (10 * acc + digit_val c) (d # ds)
      else if c = CHR ''_'' \<and> is_digit d then int_digits (10 * acc + digit_val d) ds
      else None)"

definition int_unsigned :: "string \<Rightarrow> nat option" where
  "int_unsigned t = (case t of [] \<Rightarrow> None
     | d # ds \<Rightarrow> if is_digit d then int_digits (digit_val d) ds else None)"

definition py_int :: "string \<Rightarrow> int option" where
  \<comment> \<open>\<open>int(t)\<close> in base 10; \<open>None\<close> is ValueError. CPython also refuses text of more
      than 4300 digits, longer than any file name, which is not modelled.\<close>
  "py_int t =
     (case rev (dropWhile is_int_space (rev (dropWhile is_int_space t))) of
        [] \<Rightarrow> None
      | c # cs \<Rightarrow>
          if c = CHR ''-'' then map_option (\<lambda>n. - int n) (int_unsigned cs)
          else if c = CHR ''+'' then map_option int (int_unsigned cs)
          else map_option int (int_unsigned (c # cs)))"

section \<open>Port count from the file name\<close>

definition infer_nports :: "string \<Rightarrow> int" where
  "infer_nports filename =
     (let lower = py_lower filename in
      if \<not> contains lower ''.s'' \<or> \<not> endswith lower ''p'' then 0
      else (let mid = last (py_split ''.s'' lower) in
            case py_int (butlast mid) of Some n \<Rightarrow> n | None \<Rightarrow> 0))"

section \<open>The built-in \<open>float()\<close> on text\<close>

text \<open>
  Python's floats are idealised as real numbers: rounding, infinities and NaN are outside
  this model. The decoder takes the parser \<open>pf\<close> for \<open>float(tok)\<close> as a parameter
  (\<open>None\<close> is ValueError), so the theorems below hold for every such parser.
  \<open>float_literal\<close> is \<open>float()\<close> on plain decimal literals (an optional sign, digits,
  an optional fraction); it is used to run the decoder on concrete files.
\<close>

definition digits_value :: "string \<Rightarrow> nat" where
  "digits_value ds = foldl (\<lambda>acc c. 10 * acc + digit_val c) 0 ds"

definition float_unsigned :: "string \<Rightarrow> real option" where
  "float_unsigned t =
     (let ip = takeWhile is_digit t; r = dropWhile is_digit t in
      case r of
        [] \<Rightarrow> if ip = [] then None else Some (real (digits_value ip))
      | c # fp \<Rightarrow>
          if c = CHR ''.'' \<and> list_all is_digit fp \<and> (ip \<noteq> [] \<or> fp \<noteq> [])
          then Some (real (digits_value ip) + real (digits_value fp) / 10 ^ length fp)
          else None)"

definition float_literal :: "string \<Rightarrow> real option" where
  "float_literal t =
     (case t of
        [] \<Rightarrow> None
      | c # cs \<Rightarrow>
          if c = CHR ''-'' then map_option uminus (float_unsigned cs)
          else if c = CHR ''+'' then float_unsigned cs
          else float_unsigned (c # cs))"

section \<open>Header options\<close>

definition unit_scale :: "string list \<Rightarrow> real" where
  "unit_scale parts =
     (if ''HZ'' \<in> set parts then 1
      else if ''KHZ'' \<in> set parts then 10 ^ 3
      else if ''MHZ'' \<in> set parts then 10 ^ 6
      else if ''GHZ'' \<in> set parts then 10 ^ 9
      else 1)"

definition parse_format :: "string list \<Rightarrow> string" where
  "parse_format parts =
     (if ''RI'' \<in> set parts then ''RI''
      else if ''MA'' \<in> set parts then ''MA''
      else if ''DB'' \<in> set parts then ''DB''
      else ''RI'')"

fun index_of :: "'a \<Rightarrow> 'a list \<Rightarrow> nat" where
  \<comment> \<open>\<open>xs.index(x)\<close>, called only when \<open>x in xs\<close>\<close>
  "index_of x [] = 0"
| "index_of x (y # ys) = (if x = y then 0 else Suc (index_of x ys))"

definition parse_z0 :: "(string \<Rightarrow> real option) \<Rightarrow> string list \<Rightarrow> real" where
  "parse_z0 pf parts =
     (if ''R'' \<in> set parts
      then (let idx = index_of ''R'' parts in
            if idx + 1 < length parts
            then (case pf (parts ! (idx + 1)) of Some v \<Rightarrow> v | None \<Rightarrow> 50)
            else 50)
      else 50)"

section \<open>Value pairs to complex numbers\<close>

definition deg2rad :: "real \<Rightarrow> real" where
  "deg2rad x = x * (pi / 180)"

definition to_complex :: "real \<Rightarrow> real \<Rightarrow> string \<Rightarrow> complex" where
  \<comment> \<open>one element of the arrays the source converts elementwise\<close>
  "to_complex a b fm =
     (let f = py_upper fm in
      if f = ''RI'' then of_real a + \<i> * of_real b
      else if f = ''MA'' then
        (let ang = deg2rad b in of_real a * (of_real (cos ang) + \<i> * of_real (sin ang)))
      else if f = ''DB'' then
        (let mag = 10 powr (a / 20); ang = deg2rad b in
         of_real mag * (of_real (cos ang) + \<i> * of_real (sin ang)))
      else of_real a + \<i> * of_real b)"

section \<open>The decoder\<close>

datatype error =
    UnrecognizedPortCount  \<comment> \<open>ValueError "Unable to infer port count from filename"\<close>
  | InsufficientData  \<comment> \<open>ValueError "Not enough numeric data found"\<close>

record touchstone_data =
  freq_hz :: "real list"
  sparams :: "complex list list list"  \<comment> \<open>the field \<open>s\<close>, indexed point, row, column\<close>
  nports :: int
  fmt :: string
  z0 :: real

record locals =
  l_unit_scale :: real
  l_fmt :: string
  l_z0 :: real
  data_rows :: "real list"

definition init_locals :: locals where
  "init_locals = \<lparr>l_unit_scale = 1, l_fmt = ''RI'', l_z0 = 50, data_rows = []\<rparr>"

fun collect_floats :: "(string \<Rightarrow> real option) \<Rightarrow> string list \<Rightarrow> real list" where
  \<comment> \<open>the inner loop over tokens: a token that does not parse is skipped\<close>
  "collect_floats pf [] = []"
| "collect_floats pf (tok # toks) =
     (case pf tok of Some v \<Rightarrow> v # collect_floats pf toks | None \<Rightarrow> collect_floats pf toks)"

definition scan_line :: "(string \<Rightarrow> real option) \<Rightarrow> string \<Rightarrow> locals \<Rightarrow> locals" where
  \<comment> \<open>one pass of the loop over the lines of the file\<close>
  "scan_line pf raw st =
     (let line = py_strip raw in
      if line = [] then st
      else if startswith line ''!'' then st
      else if startswith line ''#'' then
        (let parts = split_ws (py_upper line) in
         st\<lparr>l_unit_scale := unit_scale parts, l_fmt := parse_format parts,
            l_z0 := parse_z0 pf parts\<rparr>)
      else
        (let line2 = (if CHR ''!'' \<in> set line then py_strip (hd (py_split ''!'' line)) else line) in
         if line2 = [] then st
         else st\<lparr>data_rows := data_rows st @ collect_floats pf (split_ws (replace_tab line2))\<rparr>))"

definition reshape :: "nat \<Rightarrow> nat \<Rightarrow> 'a list \<Rightarrow> 'a list list" where
  \<comment> \<open>\<open>np.array(xs).reshape(n, w)\<close> for \<open>length xs = n * w\<close>\<close>
  "reshape n w xs = map (\<lambda>k. take w (drop (k * w) xs)) [0..<n]"

definition column :: "'a list list \<Rightarrow> nat \<Rightarrow> 'a list" where
  \<comment> \<open>\<open>m[:, k]\<close>\<close>
  "column m k = map (\<lambda>r. r ! k) m"

definition assign_entry ::
  "nat \<Rightarrow> nat \<Rightarrow> complex list \<Rightarrow> complex list list list \<Rightarrow> complex list list list" where
  \<comment> \<open>\<open>t[:, i, j] = col\<close>\<close>
  "assign_entry i j col t = map2 (\<lambda>v m. m[i := (m ! i)[j := v]]) col t"

definition fill_entry ::
  "string \<Rightarrow> real list list \<Rightarrow> nat \<Rightarrow> nat \<Rightarrow> nat \<times> complex list list list
     \<Rightarrow> nat \<times> complex list list list" where
  \<comment> \<open>the body of the loop over \<open>j\<close>; the state is \<open>(idx, s)\<close>\<close>
  "fill_entry fm vals i j st =
     (case st of (idx, t) \<Rightarrow>
        (idx + 2,
         assign_entry i j
           (map2 (\<lambda>a b. to_complex a b fm) (column vals idx) (column vals (idx + 1))) t))"

definition fill_row ::
  "string \<Rightarrow> real list list \<Rightarrow> nat \<Rightarrow> nat \<Rightarrow> nat \<times> complex list list list
     \<Rightarrow> nat \<times> complex list list list" where
  \<comment> \<open>the body of the loop over \<open>i\<close>\<close>
  "fill_row fm vals p i st = fold (fill_entry fm vals i) [0..<p] st"

definition assemble :: "int \<Rightarrow> locals \<Rightarrow> error + touchstone_data" where
  \<comment> \<open>\<open>read_touchstone\<close> from \<open>per_point = ...\<close> to its end; reached with \<open>0 < np\<close>\<close>
  "assemble np st =
     (let per_point = 1 + (np * np) * 2 in
      if int (length (data_rows st)) < per_point then Inl InsufficientData
      else
        (let w = nat per_point;
             total_points = length (data_rows st) div w;
             rows = reshape total_points w (take (total_points * w) (data_rows st));
             freq = map (\<lambda>r. r ! 0 * l_unit_scale st) rows;
             vals = map (drop 1) rows;
             p = nat np;
             zeros = replicate total_points (replicate p (replicate p 0));
             t = snd (fold (fill_row (l_fmt st) vals p) [0..<p] (0, zeros))
         in Inr \<lparr>freq_hz = freq, sparams = t, nports = np, fmt = l_fmt st, z0 = l_z0 st\<rparr>))"

definition read_touchstone ::
  "(string \<Rightarrow> real option) \<Rightarrow> string \<Rightarrow> string list \<Rightarrow> error + touchstone_data" where
  \<comment> \<open>\<open>name\<close> is \<open>path.name\<close>, \<open>text\<close> the lines of the file\<close>
  "read_touchstone pf name text =
     (let np = infer_nports name;
          st = fold (scan_line pf) text init_locals
      in if np \<le> 0 then Inl UnrecognizedPortCount else assemble np st)"

section \<open>Magnitude in dB\<close>

definition sparam_db :: "complex \<Rightarrow> real" where
  "sparam_db x = (let mag = cmod x; mag = max mag (1 / 10 ^ 20) in 20 * log 10 mag)"

section \<open>The file-name pattern as the specification words it\<close>


section \<open>Auxiliary notions for the proofs\<close>

text \<open>\<open>shaped n p t\<close>: \<open>t\<close> holds \<open>n\<close> matrices of \<open>p\<close> rows of \<open>p\<close> entries.\<close>

definition shaped :: "nat \<Rightarrow> nat \<Rightarrow> 'a list list list \<Rightarrow> bool" where
  "shaped n p t = (length t = n \<and> (\<forall>m \<in> set t. length m = p \<and> (\<forall>r \<in> set m. length r = p)))"

text \<open>
  The tokens of a header line, as the loop body computes them before calling the header
  functions; \<open>None\<close> for a line the loop does not treat as a header.
\<close>

definition header_parts :: "string \<Rightarrow> string list option" where
  "header_parts raw =
     (let line = py_strip raw in
      if line \<noteq> [] \<and> \<not> startswith line ''!'' \<and> startswith line ''#''
      then Some (split_ws (py_upper line)) else None)"

text \<open>The complex value the loop body computes for point \<open>k\<close> at offset \<open>idx\<close>.\<close>

definition pair_at :: "string \<Rightarrow> real list list \<Rightarrow> nat \<Rightarrow> nat \<Rightarrow> complex" where
  "pair_at fm vals k idx = to_complex (vals ! k ! idx) (vals ! k ! (idx + 1)) fm"

section \<open>Splitting at the last ".s"\<close>








lemma contains_decomp: "contains t p \<Longrightarrow> \<exists>pre post. t = pre @ p @ post"
proof (induction t)
  case Nil
  then show ?case by simp
next
  case (Cons c cs)
  show ?case
  proof (cases "startswith (c # cs) p")
    case True
    then have "c # cs = [] @ p @ drop (length p) (c # cs)"
      by (metis append_Nil append_take_drop_id startswith_def)
    then show ?thesis by blast
  next
    case False
    with Cons obtain pre post where "cs = pre @ p @ post" by auto
    then have "c # cs = (c # pre) @ p @ post" by simp
    then show ?thesis by blast
  qed
qed













section \<open>The loops that fill the matrices\<close>

lemma shaped_nth:
  "shaped n p t \<Longrightarrow> k < n \<Longrightarrow> length (t ! k) = p \<and> (\<forall>a < p. length (t ! k ! a) = p)"
proof -
  assume sh: "shaped n p t" and k: "k < n"
  then have m: "t ! k \<in> set t" by (simp add: shaped_def)
  with sh have l: "length (t ! k) = p" and r: "\<forall>r \<in> set (t ! k). length r = p"
    by (auto simp: shaped_def)
  have "\<forall>a < p. length (t ! k ! a) = p"
  proof (intro allI impI)
    fix a assume "a < p"
    with l have "t ! k ! a \<in> set (t ! k)" by simp
    with r show "length (t ! k ! a) = p" by blast
  qed
  with l show ?thesis by blast
qed

lemma shaped_zeros: "shaped n p (replicate n (replicate p (replicate p z)))"
  by (auto simp: shaped_def)

lemma update_entry_shape:
  assumes "length m = p" and "\<forall>r \<in> set m. length r = p"
  shows "length (m[i := (m ! i)[j := v]]) = p \<and> (\<forall>r \<in> set (m[i := (m ! i)[j := v]]). length r = p)"
proof (cases "i < length m")
  case True
  then have "length ((m ! i)[j := v]) = p" using assms by simp
  then show ?thesis
    using assms set_update_subset_insert [of m i "(m ! i)[j := v]"] by auto
next
  case False
  then have "m[i := (m ! i)[j := v]] = m" by (simp add: list_update_beyond)
  then show ?thesis using assms by simp
qed

lemma assign_entry_shaped:
  assumes "shaped n p t" and "length col = n"
  shows "shaped n p (assign_entry i j col t)"
proof -
  have "\<forall>x \<in> set (assign_entry i j col t). length x = p \<and> (\<forall>r \<in> set x. length r = p)"
  proof
    fix x assume "x \<in> set (assign_entry i j col t)"
    then obtain v m where "m \<in> set t" and x: "x = m[i := (m ! i)[j := v]]"
      by (auto simp: assign_entry_def dest: set_zip_rightD)
    with assms have "length m = p" "\<forall>r \<in> set m. length r = p"
      by (auto simp: shaped_def)
    then show "length x = p \<and> (\<forall>r \<in> set x. length r = p)"
      unfolding x by (rule update_entry_shape)
  qed
  moreover have "length (assign_entry i j col t) = n"
    using assms by (simp add: assign_entry_def shaped_def)
  ultimately show ?thesis by (simp add: shaped_def)
qed

lemma assign_entry_nth:
  "k < length t \<Longrightarrow> length col = length t \<Longrightarrow>
   assign_entry i j col t ! k = (t ! k)[i := (t ! k ! i)[j := col ! k]]"
  by (simp add: assign_entry_def)

lemma fill_entry_step:
  assumes "shaped n p t" and "length vals = n" and "i < p" and "j < p"
  shows "fst (fill_entry fm vals i j (idx, t)) = idx + 2"
    and "shaped n p (snd (fill_entry fm vals i j (idx, t)))"
    and "\<And>k a b. k < n \<Longrightarrow> a < p \<Longrightarrow> b < p \<Longrightarrow>
           snd (fill_entry fm vals i j (idx, t)) ! k ! a ! b =
             (if a = i \<and> b = j then pair_at fm vals k idx else t ! k ! a ! b)"
proof -
  let ?col = "map2 (\<lambda>a b. to_complex a b fm) (column vals idx) (column vals (idx + 1))"
  have len: "length ?col = n" using assms by (simp add: column_def)
  show "fst (fill_entry fm vals i j (idx, t)) = idx + 2"
    by (simp add: fill_entry_def)
  show "shaped n p (snd (fill_entry fm vals i j (idx, t)))"
    using assms len by (simp add: fill_entry_def assign_entry_shaped)
  fix k a b assume k: "k < n" and a: "a < p" and b: "b < p"
  have lt: "length t = n" using assms by (simp add: shaped_def)
  have s: "length (t ! k) = p" "length (t ! k ! i) = p"
    using shaped_nth [OF assms(1) k] assms(3) by auto
  have c: "?col ! k = pair_at fm vals k idx"
    using k assms by (simp add: column_def pair_at_def)
  show "snd (fill_entry fm vals i j (idx, t)) ! k ! a ! b =
             (if a = i \<and> b = j then pair_at fm vals k idx else t ! k ! a ! b)"
    using k a b lt len s c assms(3,4)
    by (simp add: fill_entry_def assign_entry_nth nth_list_update)
qed


lemma fill_row_loop:
  assumes "shaped n p t" and "length vals = n" and "i < p" and "m \<le> p"
  shows "fst (fold (fill_entry fm vals i) [0..<m] (idx, t)) = idx + 2 * m
    \<and> shaped n p (snd (fold (fill_entry fm vals i) [0..<m] (idx, t)))
    \<and> (\<forall>k < n. \<forall>a < p. \<forall>b < p.
          snd (fold (fill_entry fm vals i) [0..<m] (idx, t)) ! k ! a ! b =
            (if a = i \<and> b < m then pair_at fm vals k (idx + 2 * b) else t ! k ! a ! b))"
  using assms(4)
proof (induction m)
  case 0
  then show ?case using assms by simp
next
  case (Suc m)
  obtain idx' t' where st: "fold (fill_entry fm vals i) [0..<m] (idx, t) = (idx', t')"
    by (cases "fold (fill_entry fm vals i) [0..<m] (idx, t)")
  from Suc have m: "m < p" "m \<le> p" by simp_all
  from Suc.IH [OF m(2)] st have ih: "idx' = idx + 2 * m" "shaped n p t'"
    "\<forall>k < n. \<forall>a < p. \<forall>b < p. t' ! k ! a ! b =
        (if a = i \<and> b < m then pair_at fm vals k (idx + 2 * b) else t ! k ! a ! b)"
    by simp_all
  have f: "fold (fill_entry fm vals i) [0..<Suc m] (idx, t) = fill_entry fm vals i m (idx', t')"
    using st by simp
  note step = fill_entry_step [where fm = fm and idx = idx', OF ih(2) assms(2) assms(3) m(1)]
  have "\<forall>k < n. \<forall>a < p. \<forall>b < p.
          snd (fill_entry fm vals i m (idx', t')) ! k ! a ! b =
            (if a = i \<and> b < Suc m then pair_at fm vals k (idx + 2 * b) else t ! k ! a ! b)"
  proof (intro allI impI)
    fix k a b assume kab: "k < n" "a < p" "b < p"
    show "snd (fill_entry fm vals i m (idx', t')) ! k ! a ! b =
            (if a = i \<and> b < Suc m then pair_at fm vals k (idx + 2 * b) else t ! k ! a ! b)"
      using step(3) [OF kab] ih(1) ih(3) kab by (auto simp: less_Suc_eq)
  qed
  with step(1,2) ih(1) show ?case unfolding f by simp
qed

lemma fill_row_step:
  assumes "shaped n p t" and "length vals = n" and "i < p"
  shows "fst (fill_row fm vals p i (idx, t)) = idx + 2 * p"
    and "shaped n p (snd (fill_row fm vals p i (idx, t)))"
    and "\<And>k a b. k < n \<Longrightarrow> a < p \<Longrightarrow> b < p \<Longrightarrow>
           snd (fill_row fm vals p i (idx, t)) ! k ! a ! b =
             (if a = i then pair_at fm vals k (idx + 2 * b) else t ! k ! a ! b)"
  using fill_row_loop [where fm = fm and idx = idx and m = p, OF assms] by (simp_all add: fill_row_def)

lemma fill_all_loop:
  assumes "shaped n p t" and "length vals = n" and "m \<le> p"
  shows "fst (fold (fill_row fm vals p) [0..<m] (0, t)) = 2 * p * m
    \<and> shaped n p (snd (fold (fill_row fm vals p) [0..<m] (0, t)))
    \<and> (\<forall>k < n. \<forall>a < p. \<forall>b < p.
          snd (fold (fill_row fm vals p) [0..<m] (0, t)) ! k ! a ! b =
            (if a < m then pair_at fm vals k (2 * (a * p + b)) else t ! k ! a ! b))"
  using assms(3)
proof (induction m)
  case 0
  then show ?case using assms by simp
next
  case (Suc m)
  obtain idx' t' where st: "fold (fill_row fm vals p) [0..<m] (0, t) = (idx', t')"
    by (cases "fold (fill_row fm vals p) [0..<m] (0, t)")
  from Suc have m: "m < p" "m \<le> p" by simp_all
  from Suc.IH [OF m(2)] st have ih: "idx' = 2 * p * m" "shaped n p t'"
    "\<forall>k < n. \<forall>a < p. \<forall>b < p. t' ! k ! a ! b =
        (if a < m then pair_at fm vals k (2 * (a * p + b)) else t ! k ! a ! b)"
    by simp_all
  have f: "fold (fill_row fm vals p) [0..<Suc m] (0, t) = fill_row fm vals p m (idx', t')"
    using st by simp
  note step = fill_row_step [where fm = fm and idx = idx', OF ih(2) assms(2) m(1)]
  have "\<forall>k < n. \<forall>a < p. \<forall>b < p.
          snd (fill_row fm vals p m (idx', t')) ! k ! a ! b =
            (if a < Suc m then pair_at fm vals k (2 * (a * p + b)) else t ! k ! a ! b)"
  proof (intro allI impI)
    fix k a b assume kab: "k < n" "a < p" "b < p"
    have e: "idx' + 2 * b = 2 * (m * p + b)"
      using ih(1) by (simp add: algebra_simps)
    have s3: "snd (fill_row fm vals p m (idx', t')) ! k ! a ! b =
            (if a = m then pair_at fm vals k (idx' + 2 * b) else t' ! k ! a ! b)"
      by (rule step(3) [OF kab])
    show "snd (fill_row fm vals p m (idx', t')) ! k ! a ! b =
            (if a < Suc m then pair_at fm vals k (2 * (a * p + b)) else t ! k ! a ! b)"
      unfolding s3 e using ih(3) kab by (auto simp: less_Suc_eq)
  qed
  with step(1,2) ih(1) show ?case unfolding f by (simp add: algebra_simps)
qed

section \<open>Reshaping the token stream\<close>

lemma entry_index_bound: "a < p \<Longrightarrow> b < p \<Longrightarrow> a * p + b < p * (p::nat)"
proof -
  assume a: "a < p" and b: "b < p"
  have "a * p + b < a * p + p" using b by simp
  also have "\<dots> = Suc a * p" by simp
  also have "\<dots> \<le> p * p" using a by (intro mult_le_mono1) simp
  finally show ?thesis .
qed

lemma reshape_length: "length (reshape n w xs) = n"
  by (simp add: reshape_def)

lemma reshape_row_length:
  assumes "k < n" and "n * w \<le> length xs"
  shows "length (reshape n w xs ! k) = w"
proof -
  have "Suc k * w \<le> n * w" using assms(1) by (intro mult_le_mono1) simp
  with assms(2) have "k * w + w \<le> length xs" by simp
  then show ?thesis using assms(1) by (simp add: reshape_def)
qed

lemma reshape_nth:
  assumes "k < n" and "j < w" and "n * w \<le> length xs"
  shows "reshape n w xs ! k ! j = xs ! (k * w + j)"
proof -
  have "Suc k * w \<le> n * w" using assms(1) by (intro mult_le_mono1) simp
  with assms(3) have "k * w \<le> length xs" by simp
  then show ?thesis using assms(1,2) by (simp add: reshape_def)
qed

lemma assemble_fail:
  "int (length (data_rows st)) < 1 + (P * P) * 2 \<Longrightarrow> assemble P st = Inl InsufficientData"
  by (simp add: assemble_def)

lemma assemble_ok:
  fixes P :: int and st :: locals
  defines "p \<equiv> nat P"
  defines "w \<equiv> 1 + 2 * (nat P * nat P)"
  defines "cnt \<equiv> length (data_rows st) div (1 + 2 * (nat P * nat P))"
  assumes P: "1 \<le> P" and enough: "1 + (P * P) * 2 \<le> int (length (data_rows st))"
  shows "\<exists>d. assemble P st = Inr d
    \<and> nports d = P \<and> fmt d = l_fmt st \<and> z0 d = l_z0 st
    \<and> length (freq_hz d) = cnt \<and> shaped cnt p (sparams d)
    \<and> (\<forall>n < cnt. freq_hz d ! n = data_rows st ! (n * w) * l_unit_scale st)
    \<and> (\<forall>n < cnt. \<forall>a < p. \<forall>b < p.
          sparams d ! n ! a ! b =
            to_complex (data_rows st ! (n * w + 1 + 2 * (a * p + b)))
                       (data_rows st ! (n * w + 2 + 2 * (a * p + b))) (l_fmt st))"
proof -
  define xs where "xs = take (cnt * w) (data_rows st)"
  define rows where "rows = reshape cnt w xs"
  define vals where "vals = map (drop 1) rows"
  define t where "t = snd (fold (fill_row (l_fmt st) vals p) [0..<p]
                      (0, replicate cnt (replicate p (replicate p 0))))"
  define d where "d = \<lparr>freq_hz = map (\<lambda>r. r ! 0 * l_unit_scale st) rows, sparams = t,
                       nports = P, fmt = l_fmt st, z0 = l_z0 st\<rparr>"
  have w_nat: "nat (1 + (P * P) * 2) = w"
    using P by (simp add: w_def nat_add_distrib nat_mult_distrib)
  have asm: "assemble P st = Inr d"
    using enough
    by (simp add: assemble_def Let_def w_nat d_def t_def vals_def rows_def xs_def cnt_def
        p_def w_def)
  have tw: "cnt * w \<le> length (data_rows st)"
    unfolding cnt_def w_def by (rule div_times_less_eq_dividend)
  have lx: "cnt * w \<le> length xs" using tw by (simp add: xs_def)
  have lr: "length rows = cnt" by (simp add: rows_def reshape_length)
  have rn: "\<And>n j. n < cnt \<Longrightarrow> j < w \<Longrightarrow> rows ! n ! j = data_rows st ! (n * w + j)"
  proof -
    fix n j assume n: "n < cnt" and j: "j < w"
    have "Suc n * w \<le> cnt * w" using n by (intro mult_le_mono1) simp
    then have "n * w + j < cnt * w" using j by simp
    then show "rows ! n ! j = data_rows st ! (n * w + j)"
      unfolding rows_def using reshape_nth [OF n j lx] by (simp add: xs_def)
  qed
  have rl: "\<And>n. n < cnt \<Longrightarrow> length (rows ! n) = w"
    unfolding rows_def by (rule reshape_row_length [OF _ lx])
  have vn: "\<And>n j. n < cnt \<Longrightarrow> j + 1 < w \<Longrightarrow> vals ! n ! j = data_rows st ! (n * w + 1 + j)"
    using rn rl lr by (simp add: vals_def add.assoc)
  have lv: "length vals = cnt" by (simp add: vals_def lr)
  note loop = fill_all_loop [where fm = "l_fmt st" and m = p, OF shaped_zeros lv order_refl]
  have sh: "shaped cnt p t" using loop by (simp add: t_def)
  have en: "\<forall>n < cnt. \<forall>a < p. \<forall>b < p.
          t ! n ! a ! b =
            to_complex (data_rows st ! (n * w + 1 + 2 * (a * p + b)))
                       (data_rows st ! (n * w + 2 + 2 * (a * p + b))) (l_fmt st)"
  proof (intro allI impI)
    fix n a b assume n: "n < cnt" and a: "a < p" and b: "b < p"
    have "a * p + b < p * p" using a b by (rule entry_index_bound)
    then have i: "2 * (a * p + b) + 1 < w" "2 * (a * p + b) + 1 + 1 < w"
      by (simp_all add: w_def p_def)
    have "t ! n ! a ! b = pair_at (l_fmt st) vals n (2 * (a * p + b))"
      using loop n a b by (simp add: t_def)
    also have "\<dots> = to_complex (data_rows st ! (n * w + 1 + 2 * (a * p + b)))
                       (data_rows st ! (n * w + 2 + 2 * (a * p + b))) (l_fmt st)"
      using vn [OF n i(1)] vn [OF n i(2)] by (simp add: pair_at_def add.assoc)
    finally show "t ! n ! a ! b = to_complex (data_rows st ! (n * w + 1 + 2 * (a * p + b)))
                       (data_rows st ! (n * w + 2 + 2 * (a * p + b))) (l_fmt st)" .
  qed
  have fr: "\<forall>n < cnt. freq_hz d ! n = data_rows st ! (n * w) * l_unit_scale st"
    using rn [of _ 0] lr by (simp add: d_def w_def)
  show ?thesis
    using asm sh en fr lr by (intro exI [of _ d]) (simp add: d_def)
qed

section \<open>The point assembler\<close>

lemma assemble_truncate:
  fixes P :: int and st :: locals
  defines "w \<equiv> nat (1 + 2 * P ^ 2)"
  shows "assemble P (st\<lparr>data_rows := take (length (data_rows st) div w * w) (data_rows st)\<rparr>)
           = assemble P st"
proof -
  let ?T = "length (data_rows st)"
  have sq: "0 \<le> P * P" by simp
  have pos: "0 < 1 + (P * P) * 2" using sq by linarith
  have pp: "nat (1 + (P * P) * 2) = w" by (simp add: w_def power2_eq_square mult.commute)
  have wpos: "0 < w" unfolding pp [symmetric] using pos by simp
  have wi: "int w = 1 + (P * P) * 2" unfolding pp [symmetric] using pos by simp
  have le: "?T div w * w \<le> ?T" by (rule div_times_less_eq_dividend)
  then have len: "length (take (?T div w * w) (data_rows st)) = ?T div w * w" by simp
  have dv: "?T div w * w div w = ?T div w" using wpos by simp
  have c: "(?T div w * w < w) = (?T < w)"
  proof
    assume "?T div w * w < w"
    then have "?T div w = 0" using wpos by (cases "?T div w") auto
    then show "?T < w" using wpos by (simp add: div_eq_0_iff)
  next
    assume "?T < w" then show "?T div w * w < w" using wpos by simp
  qed
  have c': "(int (?T div w * w) < 1 + (P * P) * 2) = (int ?T < 1 + (P * P) * 2)"
    using c unfolding wi [symmetric] by (simp only: of_nat_less_iff)
  define st' where "st' = st\<lparr>data_rows := take (?T div w * w) (data_rows st)\<rparr>"
  have f1: "data_rows st' = take (?T div w * w) (data_rows st)"
    and f2: "l_unit_scale st' = l_unit_scale st"
    and f3: "l_fmt st' = l_fmt st" and f4: "l_z0 st' = l_z0 st"
    by (simp_all add: st'_def)
  have f5: "length (data_rows st') = ?T div w * w" unfolding f1 by (rule len)
  have f6: "take (?T div w * w) (data_rows st') = data_rows st'"
    unfolding f1 by simp
  have "assemble P st' = assemble P st"
    unfolding assemble_def Let_def pp f2 f3 f4 f5 f6 dv c' unfolding f1 ..
  then show ?thesis unfolding st'_def .
qed

text \<open>
  C1. With record width \<open>w = 1 + 2 * P\<^sup>2\<close> and a token stream of length \<open>T\<close>: the point
  assembler fails with InsufficientData when \<open>T < w\<close>; otherwise it returns \<open>T div w\<close>
  points, point \<open>n\<close> built from the tokens \<open>n * w, ..., n * w + w - 1\<close> in their order
  (the frequency first, then one pair per matrix entry in row-major order); the tokens
  after the last complete record are dropped without error. \<open>assemble\<close> is what
  \<open>read_touchstone\<close> runs on the token stream of the file once the port count is
  known to be positive.
\<close>

theorem point_assembler:
  fixes P :: int and st :: locals
  defines "w \<equiv> nat (1 + 2 * P ^ 2)"
  defines "T \<equiv> length (data_rows st)"
  assumes "1 \<le> P"
  shows "(T < w \<longrightarrow> assemble P st = Inl InsufficientData)
    \<and> (w \<le> T \<longrightarrow>
         (\<exists>d. assemble P st = Inr d
            \<and> length (freq_hz d) = T div w \<and> length (sparams d) = T div w
            \<and> (\<forall>n < T div w.
                  freq_hz d ! n = data_rows st ! (n * w) * l_unit_scale st
                \<and> (\<forall>i < nat P. \<forall>j < nat P.
                      sparams d ! n ! i ! j =
                        to_complex (data_rows st ! (n * w + 1 + 2 * (i * nat P + j)))
                                   (data_rows st ! (n * w + 2 + 2 * (i * nat P + j)))
                                   (l_fmt st)))))
    \<and> assemble P (st\<lparr>data_rows := take (T div w * w) (data_rows st)\<rparr>) = assemble P st
    \<and> (infer_nports name = P \<longrightarrow>
          read_touchstone pf name txt = assemble P (fold (scan_line pf) txt init_locals))"
proof (intro conjI impI)
  have sq: "0 \<le> P * P" by simp
  have pos: "0 < 1 + (P * P) * 2" using sq by linarith
  have pp: "nat (1 + (P * P) * 2) = w" by (simp add: w_def power2_eq_square mult.commute)
  have wi: "int w = 1 + (P * P) * 2" unfolding pp [symmetric] using pos by simp
  have wn: "w = 1 + 2 * (nat P * nat P)"
    using assms(3) by (simp add: w_def power2_eq_square nat_mult_distrib nat_add_distrib)
  { assume "T < w"
    then have "int (length (data_rows st)) < 1 + (P * P) * 2"
      unfolding wi [symmetric] T_def by simp
    then show "assemble P st = Inl InsufficientData" by (rule assemble_fail) }
  { assume "w \<le> T"
    then have "1 + (P * P) * 2 \<le> int (length (data_rows st))"
      unfolding wi [symmetric] T_def by simp
    from assemble_ok [OF assms(3) this] obtain d where d: "assemble P st = Inr d"
      "length (freq_hz d) = T div w" "shaped (T div w) (nat P) (sparams d)"
      "\<forall>n < T div w. freq_hz d ! n = data_rows st ! (n * w) * l_unit_scale st"
      "\<forall>n < T div w. \<forall>a < nat P. \<forall>b < nat P. sparams d ! n ! a ! b =
            to_complex (data_rows st ! (n * w + 1 + 2 * (a * nat P + b)))
                       (data_rows st ! (n * w + 2 + 2 * (a * nat P + b))) (l_fmt st)"
      unfolding wn T_def by blast
    from d(3) have "length (sparams d) = T div w" by (simp add: shaped_def)
    with d show "\<exists>d. assemble P st = Inr d
            \<and> length (freq_hz d) = T div w \<and> length (sparams d) = T div w
            \<and> (\<forall>n < T div w.
                  freq_hz d ! n = data_rows st ! (n * w) * l_unit_scale st
                \<and> (\<forall>i < nat P. \<forall>j < nat P.
                      sparams d ! n ! i ! j =
                        to_complex (data_rows st ! (n * w + 1 + 2 * (i * nat P + j)))
                                   (data_rows st ! (n * w + 2 + 2 * (i * nat P + j)))
                                   (l_fmt st)))"
      by (intro exI [of _ d]) simp }
  show "assemble P (st\<lparr>data_rows := take (T div w * w) (data_rows st)\<rparr>) = assemble P st"
    unfolding T_def w_def by (rule assemble_truncate)
  { assume "infer_nports name = P"
    with assms(3) show "read_touchstone pf name txt
        = assemble P (fold (scan_line pf) txt init_locals)"
      by (simp add: read_touchstone_def) }
qed

theorem point_assembler_witness:
  "(1::int) \<le> 2
   \<and> (\<exists>d. assemble 2 \<lparr>l_unit_scale = 1, l_fmt = ''RI'', l_z0 = 50,
             data_rows = [1, 2, 3, 4, 5, 6, 7, 8, 9, 10, 11, 12, 13, 14, 15, 16, 17, 18,
                          19, 20, 21]\<rparr> = Inr d
        \<and> length (freq_hz d) = 2 \<and> length (sparams d) = 2
        \<and> freq_hz d ! 1 = 10 \<and> sparams d ! 1 ! 1 ! 0 = to_complex 15 16 ''RI'')"
proof -
  let ?st = "\<lparr>l_unit_scale = 1, l_fmt = ''RI'', l_z0 = 50,
             data_rows = [1, 2, 3, 4, 5, 6, 7, 8, 9, 10, 11, 12, 13, 14, 15, 16, 17, 18,
                          19, 20, 21 :: real]\<rparr>"
  have h: "(1::int) \<le> 2" by simp
  have w: "nat (1 + 2 * (2::int) ^ 2) = 9" by simp
  have T: "length (data_rows ?st) = 21" by simp
  have dv: "(21::nat) div 9 = 2" by simp
  have le: "(9::nat) \<le> 21" by simp
  note pa = point_assembler [OF h, of ?st, unfolded w T dv]
  from pa [THEN conjunct2, THEN conjunct1, THEN mp, OF le]
  obtain d where d: "assemble 2 ?st = Inr d"
    "length (freq_hz d) = 2" "length (sparams d) = 2"
    and pts: "\<forall>n < 2. freq_hz d ! n = data_rows ?st ! (n * 9) * l_unit_scale ?st
       \<and> (\<forall>i < nat 2. \<forall>j < nat 2. sparams d ! n ! i ! j =
             to_complex (data_rows ?st ! (n * 9 + 1 + 2 * (i * nat 2 + j)))
                        (data_rows ?st ! (n * 9 + 2 + 2 * (i * nat 2 + j))) (l_fmt ?st))"
    by blast
  have one: "(1::nat) < 2" by simp
  note p1 = pts [THEN spec, THEN mp, OF one]
  have f: "freq_hz d ! 1 = 10" using p1 [THEN conjunct1] by simp
  have n1: "(1::nat) < nat 2" and n0: "(0::nat) < nat 2" by simp_all
  have "sparams d ! 1 ! 1 ! 0 = to_complex 15 16 ''RI''"
    using p1 [THEN conjunct2, THEN spec, THEN mp, OF n1, THEN spec, THEN mp, OF n0]
    by simp
  with f h d show ?thesis by blast
qed

section \<open>Invariants of a decoded dataset\<close>

lemma read_touchstone_ok:
  assumes "read_touchstone pf name text = Inr d"
  shows "0 < infer_nports name"
    and "assemble (infer_nports name) (fold (scan_line pf) text init_locals) = Inr d"
  using assms by (auto simp: read_touchstone_def Let_def split: if_splits)


lemma assemble_Inr:
  assumes P: "1 \<le> P" and a: "assemble P st = Inr d"
  shows "nports d = P" and "length (freq_hz d) = length (sparams d)"
    and "shaped (length (sparams d)) (nat P) (sparams d)"
proof -
  have "\<not> int (length (data_rows st)) < 1 + (P * P) * 2"
    using a assemble_fail [of st P] by auto
  then have "1 + (P * P) * 2 \<le> int (length (data_rows st))" by simp
  from assemble_ok [OF P this] a obtain n where
    "nports d = P" "length (freq_hz d) = n" "shaped n (nat P) (sparams d)"
    by auto
  then show "nports d = P" and "length (freq_hz d) = length (sparams d)"
    and "shaped (length (sparams d)) (nat P) (sparams d)"
    by (auto simp: shaped_def)
qed

lemma ex_infer_one: "infer_nports ''x.s1p'' = 1"
  by code_simp

lemma ex_upper_ri: "py_upper ''RI'' = ''RI''"
  by code_simp

lemma ex_scan_khz:
  "fold (scan_line float_literal) [''# KHZ S RI R 50'', ''1000 0.5 0.25''] init_locals
     = \<lparr>l_unit_scale = 1000, l_fmt = ''RI'', l_z0 = 50, data_rows = [1000, 1 / 2, 1 / 4]\<rparr>"
  by code_simp

lemma ex_assemble_one:
  "assemble 1 \<lparr>l_unit_scale = u, l_fmt = ''RI'', l_z0 = z, data_rows = [f, a, b]\<rparr>
     = Inr \<lparr>freq_hz = [f * u], sparams = [[[Complex a b]]], nports = 1, fmt = ''RI'', z0 = z\<rparr>"
  by (simp add: assemble_def Let_def reshape_def fill_row_def fill_entry_def assign_entry_def
      column_def to_complex_def ex_upper_ri complex_eq_iff)

lemma ex_decode_khz:
  "read_touchstone float_literal ''x.s1p'' [''# KHZ S RI R 50'', ''1000 0.5 0.25'']
     = Inr \<lparr>freq_hz = [1000000], sparams = [[[Complex (1 / 2) (1 / 4)]]], nports = 1,
             fmt = ''RI'', z0 = 50\<rparr>"
  unfolding read_touchstone_def ex_infer_one ex_scan_khz Let_def ex_assemble_one by simp

text \<open>
  C4. A dataset returned by a successful decode has as many frequencies as matrices, its
  port count is the positive count inferred from the file name, and every matrix has
  that many rows and every row that many entries. A failed decode is \<open>Inl e\<close>, which
  carries the error alone.
\<close>

theorem decode_invariant:
  assumes "read_touchstone pf name text = Inr d"
  shows "length (freq_hz d) = length (sparams d)
    \<and> nports d = infer_nports name \<and> 0 < nports d
    \<and> (\<forall>m \<in> set (sparams d).
          length m = nat (nports d) \<and> (\<forall>r \<in> set m. length r = nat (nports d)))"
proof -
  from read_touchstone_ok [OF assms] have P: "1 \<le> infer_nports name"
    and a: "assemble (infer_nports name) (fold (scan_line pf) text init_locals) = Inr d"
    by simp_all
  note inv = assemble_Inr [OF P a]
  from inv(1) P have "0 < nports d" by simp
  moreover from inv(3) inv(1)
  have "\<forall>m \<in> set (sparams d).
          length m = nat (nports d) \<and> (\<forall>r \<in> set m. length r = nat (nports d))"
    by (simp add: shaped_def)
  ultimately show ?thesis using inv(1,2) by simp
qed

theorem decode_invariant_witness:
  "read_touchstone float_literal ''x.s1p'' [''# KHZ S RI R 50'', ''1000 0.5 0.25'']
     = Inr \<lparr>freq_hz = [1000000], sparams = [[[Complex (1 / 2) (1 / 4)]]], nports = 1,
             fmt = ''RI'', z0 = 50\<rparr>
   \<and> length [1000000 :: real] = length [[[Complex (1 / 2) (1 / 4)]]]
   \<and> infer_nports ''x.s1p'' = 1
   \<and> list_all (\<lambda>m. length m = 1 \<and> list_all (\<lambda>r. length r = 1) m)
        [[[Complex (1 / 2) (1 / 4)]]]"
  using decode_invariant [OF ex_decode_khz] ex_decode_khz by simp

section \<open>Inferring the port count\<close>









lemma ex_infer_sixteen: "infer_nports ''FOO.S16P'' = 16"
  by code_simp









section \<open>The three encodings\<close>

lemma ex_upper_ma: "py_upper ''MA'' = ''MA''"
  by code_simp

lemma ex_upper_db: "py_upper ''DB'' = ''DB''"
  by code_simp

lemma to_complex_RI: "to_complex a b ''RI'' = Complex a b"
  by (simp add: to_complex_def ex_upper_ri complex_eq_iff)

lemma to_complex_MA:
  "to_complex a b ''MA'' = Complex (a * cos (b * pi / 180)) (a * sin (b * pi / 180))"
  by (simp add: to_complex_def ex_upper_ma deg2rad_def Let_def complex_eq_iff)

lemma to_complex_DB:
  "to_complex a b ''DB'' =
     Complex (10 powr (a / 20) * cos (b * pi / 180)) (10 powr (a / 20) * sin (b * pi / 180))"
  by (simp add: to_complex_def ex_upper_db deg2rad_def Let_def complex_eq_iff)

text \<open>
  C3. For a value pair \<open>(a, b)\<close> the converter returns \<open>a + i b\<close> under RI,
  \<open>a (cos \<theta> + i sin \<theta>)\<close> under MA and \<open>10\<^sup>a\<^sup>/\<^sup>2\<^sup>0 (cos \<theta> + i sin \<theta>)\<close> under DB, where
  \<open>\<theta> = b \<pi> / 180\<close> is \<open>b\<close> degrees in radians.
\<close>

theorem to_complex_encodings:
  "to_complex a b ''RI'' = of_real a + \<i> * of_real b
   \<and> to_complex a b ''MA''
       = of_real a * (of_real (cos (b * pi / 180)) + \<i> * of_real (sin (b * pi / 180)))
   \<and> to_complex a b ''DB''
       = of_real (10 powr (a / 20))
         * (of_real (cos (b * pi / 180)) + \<i> * of_real (sin (b * pi / 180)))
   \<and> Re (to_complex a b ''MA'') = a * cos (b * pi / 180)
   \<and> Im (to_complex a b ''MA'') = a * sin (b * pi / 180)
   \<and> Re (to_complex a b ''DB'') = 10 powr (a / 20) * cos (b * pi / 180)
   \<and> Im (to_complex a b ''DB'') = 10 powr (a / 20) * sin (b * pi / 180)"
  by (simp add: to_complex_RI to_complex_MA to_complex_DB complex_eq_iff)



section \<open>The magnitude transform\<close>

text \<open>
  C9. The magnitude transform is \<open>20 log\<^sub>1\<^sub>0 (max |x| 10\<^sup>-\<^sup>2\<^sup>0)\<close>; the logarithm is always
  taken of a positive number; \<open>0\<close> maps to \<open>-400\<close> and \<open>1\<close> to \<open>0\<close>.
\<close>

theorem sparam_db_floor:
  "sparam_db x = 20 * log 10 (max (cmod x) (1 / 10 ^ 20))
   \<and> 0 < max (cmod x) (1 / 10 ^ 20)
   \<and> - 400 \<le> sparam_db x
   \<and> sparam_db 0 = - 400
   \<and> sparam_db 1 = 0"
proof -
  have "log 10 ((10::real) ^ 20) = real 20"
    by (rule log_pow_cancel) simp_all
  then have l: "log 10 (1 / 10 ^ 20) = - 20"
    by (simp add: log_divide)
  have p: "(0::real) < max (cmod x) (1 / 10 ^ 20)" by (simp add: less_max_iff_disj)
  have "log 10 (1 / 10 ^ 20) \<le> log 10 (max (cmod x) (1 / 10 ^ 20))"
    by (subst log_le_cancel_iff) simp_all
  then have lo: "- 400 \<le> sparam_db x" unfolding l by (simp add: sparam_db_def)
  have z: "sparam_db 0 = - 400" using l by (simp add: sparam_db_def)
  have o: "sparam_db 1 = 0" by (simp add: sparam_db_def)
  show ?thesis using p lo z o by (simp add: sparam_db_def)
qed

section \<open>Reference impedance\<close>

lemma index_of_first: "x \<notin> set pre \<Longrightarrow> index_of x (pre @ x # rest) = length pre"
  by (induction pre) auto

lemma parse_z0_absent: "''R'' \<notin> set parts \<Longrightarrow> parse_z0 pf parts = 50"
  by (simp add: parse_z0_def)

lemma parse_z0_last: "''R'' \<notin> set pre \<Longrightarrow> parse_z0 pf (pre @ [''R'']) = 50"
  using index_of_first [of "''R''" pre "[]"] by (simp add: parse_z0_def)

lemma parse_z0_follower:
  "''R'' \<notin> set pre \<Longrightarrow>
   parse_z0 pf (pre @ ''R'' # tok # rest) = (case pf tok of Some v \<Rightarrow> v | None \<Rightarrow> 50)"
  using index_of_first [of "''R''" pre "tok # rest"]
  by (simp add: parse_z0_def nth_append)

text \<open>
  C5 (amended). When R appears and the token right after its first occurrence parses as
  a float, that value is the reference impedance, whatever its sign; when R is absent,
  when its first occurrence is the last token, or when the follower does not parse, the
  reference impedance is 50. The stage never fails.
\<close>

theorem parse_z0_cases:
  "(''R'' \<notin> set parts \<longrightarrow> parse_z0 pf parts = 50)
   \<and> (\<forall>pre. parts = pre @ [''R''] \<and> ''R'' \<notin> set pre \<longrightarrow> parse_z0 pf parts = 50)
   \<and> (\<forall>pre tok rest. parts = pre @ ''R'' # tok # rest \<and> ''R'' \<notin> set pre \<longrightarrow>
         parse_z0 pf parts = (case pf tok of Some v \<Rightarrow> v | None \<Rightarrow> 50))"
  by (auto simp: parse_z0_absent parse_z0_last parse_z0_follower simp del: append_Cons)

lemma ex_float_75: "float_literal ''75'' = Some 75"
  by code_simp

lemma ex_float_neg5: "float_literal ''-5'' = Some (- 5)"
  by code_simp

lemma ex_float_word: "float_literal ''OHM'' = None"
  by code_simp

theorem parse_z0_cases_witness:
  "''R'' \<notin> set [''#'', ''GHZ'', ''S'', ''RI'']
   \<and> parse_z0 float_literal [''#'', ''GHZ'', ''S'', ''RI''] = 50
   \<and> parse_z0 float_literal ([''#'', ''GHZ'', ''S'', ''RI''] @ [''R'']) = 50
   \<and> parse_z0 float_literal ([''#'', ''GHZ'', ''S'', ''RI''] @ ''R'' # ''75'' # []) = 75
   \<and> parse_z0 float_literal ([''#'', ''GHZ'', ''S'', ''RI''] @ ''R'' # ''OHM'' # [''75'']) = 50"
proof -
  let ?pre = "[''#'', ''GHZ'', ''S'', ''RI'']"
  have h: "''R'' \<notin> set ?pre" by simp
  have a: "parse_z0 float_literal ?pre = 50"
    using parse_z0_cases [of ?pre float_literal, THEN conjunct1, THEN mp, OF h] .
  have b: "parse_z0 float_literal (?pre @ [''R'']) = 50"
    using parse_z0_cases [of "?pre @ [''R'']" float_literal, THEN conjunct2, THEN conjunct1,
        THEN spec, of ?pre] h by blast
  have c: "parse_z0 float_literal (?pre @ ''R'' # ''75'' # []) = 75"
    using parse_z0_cases [of "?pre @ ''R'' # ''75'' # []" float_literal, THEN conjunct2,
        THEN conjunct2, THEN spec, THEN spec, THEN spec, of ?pre "''75''" "[]"] h ex_float_75
    by simp
  have d: "parse_z0 float_literal (?pre @ ''R'' # ''OHM'' # [''75'']) = 50"
    using parse_z0_cases [of "?pre @ ''R'' # ''OHM'' # [''75'']" float_literal, THEN conjunct2,
        THEN conjunct2, THEN spec, THEN spec, THEN spec, of ?pre "''OHM''" "[''75'']"] h
      ex_float_word
    by simp
  from h a b c d show ?thesis by blast
qed

theorem parse_z0_cases_counterexample:
  "float_literal ''-5'' = Some (- 5) \<and> \<not> (0::real) < - 5
   \<and> parse_z0 float_literal [''#'', ''GHZ'', ''S'', ''RI'', ''R'', ''-5''] = - 5
   \<and> parse_z0 float_literal [''#'', ''GHZ'', ''S'', ''RI'', ''R'', ''-5''] \<noteq> 50"
proof -
  have "parse_z0 float_literal [''#'', ''GHZ'', ''S'', ''RI'', ''R'', ''-5''] = - 5"
    using parse_z0_follower [of "[''#'', ''GHZ'', ''S'', ''RI'']" float_literal "''-5''" "[]"]
      ex_float_neg5 by simp
  then show ?thesis using ex_float_neg5 by simp
qed

section \<open>Unit scale and header lines\<close>











section \<open>Inline comments on the header line\<close>

lemma ex_header_comment:
  "header_parts ''# GHZ S RI R 50 ! freq in Hz''
     = Some [''#'', ''GHZ'', ''S'', ''RI'', ''R'', ''50'', ''!'', ''FREQ'', ''IN'', ''HZ'']"
  by code_simp

lemma ex_scan_comment:
  "fold (scan_line float_literal) [''# GHZ S RI R 50 ! freq in Hz'', ''1 0.5 0.25 ! 7 8 9'']
     init_locals
     = \<lparr>l_unit_scale = 1, l_fmt = ''RI'', l_z0 = 50, data_rows = [1, 1 / 2, 1 / 4]\<rparr>"
  by code_simp

lemma ex_scan_ghz:
  "fold (scan_line float_literal) [''# GHZ S RI R 50'', ''1 0.5 0.25 ! 7 8 9''] init_locals
     = \<lparr>l_unit_scale = 1000000000, l_fmt = ''RI'', l_z0 = 50, data_rows = [1, 1 / 2, 1 / 4]\<rparr>"
  by code_simp

text \<open>
  C7 at a concrete file. The header line "# GHZ S RI R 50 ! freq in Hz" keeps the "!"
  and the words after it among its tokens, so the token HZ of the comment sets the unit
  scale to 1 and the frequency 1 is decoded as 1 Hz; without the comment the same file
  gives \<open>10\<^sup>9\<close> Hz. On the data line of the same file the text after "!" is dropped.
\<close>

theorem header_comment_kept:
  "header_parts ''# GHZ S RI R 50 ! freq in Hz''
     = Some [''#'', ''GHZ'', ''S'', ''RI'', ''R'', ''50'', ''!'', ''FREQ'', ''IN'', ''HZ'']
   \<and> read_touchstone float_literal ''x.s1p''
         [''# GHZ S RI R 50 ! freq in Hz'', ''1 0.5 0.25 ! 7 8 9'']
       = Inr \<lparr>freq_hz = [1], sparams = [[[Complex (1 / 2) (1 / 4)]]], nports = 1,
               fmt = ''RI'', z0 = 50\<rparr>
   \<and> read_touchstone float_literal ''x.s1p'' [''# GHZ S RI R 50'', ''1 0.5 0.25 ! 7 8 9'']
       = Inr \<lparr>freq_hz = [1000000000], sparams = [[[Complex (1 / 2) (1 / 4)]]], nports = 1,
               fmt = ''RI'', z0 = 50\<rparr>"
proof -
  have a: "read_touchstone float_literal ''x.s1p''
         [''# GHZ S RI R 50 ! freq in Hz'', ''1 0.5 0.25 ! 7 8 9'']
       = Inr \<lparr>freq_hz = [1], sparams = [[[Complex (1 / 2) (1 / 4)]]], nports = 1,
               fmt = ''RI'', z0 = 50\<rparr>"
    unfolding read_touchstone_def ex_infer_one ex_scan_comment Let_def ex_assemble_one by simp
  have b: "read_touchstone float_literal ''x.s1p'' [''# GHZ S RI R 50'', ''1 0.5 0.25 ! 7 8 9'']
       = Inr \<lparr>freq_hz = [1000000000], sparams = [[[Complex (1 / 2) (1 / 4)]]], nports = 1,
               fmt = ''RI'', z0 = 50\<rparr>"
    unfolding read_touchstone_def ex_infer_one ex_scan_ghz Let_def ex_assemble_one by simp
  from ex_header_comment a b show ?thesis by blast
qed

end
